theory Spec2Isabelle
  imports Complex_Main
begin

section \<open>The telemetry flight recorder of src/main.py\<close>

text \<open>
  The class \<open>PytronkittelemetryPlugin\<close> is embedded as a record of its attributes
  together with the part of the process it touches (\<open>sys.excepthook\<close>) and a trace
  of the calls it makes to its collaborators (logger, \<open>requests.post\<close>, the previous
  exception hook, thread and timer starts). Every method takes the state and returns
  the exception that escapes it, if any, and the state it leaves behind: a Python
  exception does not undo the assignments made before it.

  What the host and the platform answer (the application state, the system
  information, psutil, the network, thread creation) is not computed by the plugin;
  it is an argument of each call, the record \<open>env\<close>.
\<close>

subsection \<open>Python values\<close>

text \<open>
  The values a state mapping may hold. \<open>VObj\<close> stands for any object that
  \<open>json.dumps\<close> rejects with a TypeError (a set, bytes, an instance of a class);
  keys of mappings are strings.
\<close>

datatype pyval =
    VNone
  | VBool bool
  | VInt int
  | VFloat real
  | VStr string
  | VList "pyval list"
  | VDict "(string \<times> pyval) list"
  | VObj nat

type_synonym pydict = "(string \<times> pyval) list"

fun json_ok :: "pyval \<Rightarrow> bool" where
  "json_ok (VObj n) = False"
| "json_ok (VList xs) = list_all json_ok xs"
| "json_ok (VDict kvs) = list_all (\<lambda>kv. json_ok (snd kv)) kvs"
| "json_ok v = True"

text \<open>
  The exceptions that occur. \<open>KeyboardInterrupt\<close> and \<open>SystemExit\<close> derive from
  \<open>BaseException\<close> only, so \<open>except Exception\<close> lets them through, while a bare
  \<open>except:\<close> catches them.
\<close>

datatype exc =
    AttributeError
  | ImportError
  | TypeError
  | RuntimeError
  | OSError
  | ConnectionError
  | KeyboardInterrupt
  | SystemExit

definition is_Exception :: "exc \<Rightarrow> bool" where
  "is_Exception e = (e \<noteq> KeyboardInterrupt \<and> e \<noteq> SystemExit)"

subsection \<open>Strings\<close>

text \<open>
  A \<open>char\<close> is a code point below 256. \<open>str.lower\<close> moves A-Z and the capital
  letters of Latin-1 (192 to 222 without the multiplication sign 215) up by 32;
  \<open>str.strip\<close> removes the code points for which \<open>str.isspace\<close> holds from both
  ends; \<open>sub in s\<close> is the substring test.
\<close>

definition lower_char :: "char \<Rightarrow> char" where
  "lower_char c =
     (let n = (of_char c :: nat)
      in if (65 \<le> n \<and> n \<le> 90) \<or> (192 \<le> n \<and> n \<le> 222 \<and> n \<noteq> 215)
         then char_of (n + 32) else c)"

definition lower :: "string \<Rightarrow> string" where
  "lower s = map lower_char s"

definition isspace :: "char \<Rightarrow> bool" where
  "isspace c = ((of_char c :: nat) \<in> {9, 10, 11, 12, 13, 28, 29, 30, 31, 32, 133, 160})"

definition strip :: "string \<Rightarrow> string" where
  "strip s = rev (dropWhile isspace (rev (dropWhile isspace s)))"

fun startswith :: "string \<Rightarrow> string \<Rightarrow> bool" where
  "startswith s [] = True"
| "startswith [] (p # ps) = False"
| "startswith (c # cs) (p # ps) = (c = p \<and> startswith cs ps)"

fun contains :: "string \<Rightarrow> string \<Rightarrow> bool" where
  "contains sub [] = (sub = [])"
| "contains sub (c # cs) = (startswith (c # cs) sub \<or> contains sub cs)"

text \<open>\<open>a or b\<close> on optional strings: \<open>None\<close> and the empty string are falsy.\<close>

fun py_or :: "string option \<Rightarrow> string option \<Rightarrow> string option" where
  "py_or None b = b"
| "py_or (Some s) b = (if s = [] then b else Some s)"

subsection \<open>Events, hooks, the trace\<close>

datatype payload =
    Heartbeat (hb_session: string) (hb_state: pydict) (hb_system: pydict)
              (hb_ram_usage: pyval) (hb_timestamp: real)
  | Crash (cr_session: string) (cr_error: string) (cr_traceback: string)
          (cr_os: string) (cr_last_state: pydict)

fun payload_json_ok :: "payload \<Rightarrow> bool" where
  "payload_json_ok (Heartbeat sess st sys ram ts) =
     (json_ok (VDict st) \<and> json_ok (VDict sys) \<and> json_ok ram)"
| "payload_json_ok (Crash sess err tb os st) = json_ok (VDict st)"

text \<open>
  A value of \<open>sys.excepthook\<close>: the bound method \<open>self._crash_handler\<close>, or some
  other callable, told apart by a number.
\<close>

datatype hook = CrashHandler | Hook nat

datatype level = Debug | Info | Warning | Error

datatype msg =
    SnapshotTimerSkipped
  | RecorderStarted string
  | QueueFullDropping
  | SnapshotError exc
  | CrashReport payload
  | FailedToSendCrash exc
  | TelemetryPayload payload
  | SilentSendFailure exc
  | TornDown

datatype effect =
    Log level msg
  | Post string payload real
  | CallHook hook
  | WorkerStart
  | TimerStart real
  | TimerCancel

datatype timer_attr = Unset | TimerNone | Timer (interval: real) (started: bool) (cancelled: bool)

record state =
  mode :: string
  telemetry_url :: string
  crash_url :: string
  session_id :: string
  queue :: "payload list"
  maxsize :: int
  stop_event :: bool
  original_hook :: "hook option"
  timer :: timer_attr
  excepthook :: hook
  trace :: "effect list"

record env =
  app_truthy :: bool
  has_state :: bool
  to_dict :: "exc + pydict"
  get_system_info :: "exc + pydict"
  platform_system :: string
  platform_platform :: string
  psutil_percent :: "exc + pyval"
  time_now :: real
  worker_start :: "exc option"
  timer_start :: "exc option"
  post_result :: "exc option"

definition emit :: "effect \<Rightarrow> state \<Rightarrow> state" where
  "emit x s = s\<lparr>trace := trace s @ [x]\<rparr>"

subsection \<open>The constructor\<close>

text \<open>
  \<open>__init__\<close>, for a \<open>mode\<close> argument that is a string. The arguments and the
  host's configuration values are strings or absent; \<open>h0\<close> is the value of
  \<open>sys.excepthook\<close> when the plugin is built.
\<close>

definition normalize_mode :: "string \<Rightarrow> string" where
  "normalize_mode m =
     (let m' = strip (lower m)
      in if m' = ''error_only'' \<or> m' = ''errors_only'' then ''errors_only'' else m')"

fun or_default :: "string option \<Rightarrow> string \<Rightarrow> string" where
  "or_default None d = d"
| "or_default (Some s) d = (if s = [] then d else s)"

record args =
  arg_telemetry_url :: "string option"
  arg_crash_url :: "string option"
  arg_mode :: string
  kwargs_url :: "string option"
  config_telemetry_url :: "string option"
  config_crash_url :: "string option"
  manifest_telemetry_url :: "string option"
  manifest_crash_url :: "string option"
  app_session_id :: "string option"

definition init :: "hook \<Rightarrow> args \<Rightarrow> state" where
  "init h0 a =
     \<lparr> mode = normalize_mode (arg_mode a),
       telemetry_url =
         or_default (py_or (arg_telemetry_url a) (py_or (kwargs_url a)
           (py_or (config_telemetry_url a) (manifest_telemetry_url a))))
           ''https://api.myapp.com/telemetry'',
       crash_url =
         or_default (py_or (arg_crash_url a)
           (py_or (config_crash_url a) (manifest_crash_url a)))
           ''https://api.myapp.com/crash'',
       session_id = (case app_session_id a of None \<Rightarrow> ''unknown-session'' | Some i \<Rightarrow> i),
       queue = [],
       maxsize = 100,
       stop_event = False,
       original_hook = None,
       timer = Unset,
       excepthook = h0,
       trace = [] \<rparr>"

subsection \<open>The queue\<close>

text \<open>
  \<open>Queue.put_nowait\<close> of the standard library: with a positive \<open>maxsize\<close> it raises
  \<open>Full\<close> (here \<open>None\<close>) once that many items are held, otherwise it appends.
  \<open>enqueue\<close> is the \<open>try: put_nowait ... except Full\<close> of \<open>_snapshot_state\<close>.
\<close>

definition put_nowait :: "payload \<Rightarrow> state \<Rightarrow> state option" where
  "put_nowait p s =
     (if 0 < maxsize s \<and> maxsize s \<le> int (length (queue s)) then None
      else Some (s\<lparr>queue := queue s @ [p]\<rparr>))"

definition enqueue :: "payload \<Rightarrow> state \<Rightarrow> state" where
  "enqueue p s =
     (case put_nowait p s of
        Some s' \<Rightarrow> s'
      | None \<Rightarrow> emit (Log Warning QueueFullDropping) s)"

subsection \<open>The snapshot scheduler\<close>

definition sensitive :: "string \<Rightarrow> bool" where
  "sensitive k = (contains ''password'' (lower k) \<or> contains ''token'' (lower k))"

definition safe_state :: "pydict \<Rightarrow> pydict" where
  "safe_state state_snapshot =
     filter (\<lambda>kv. \<not> contains ''password'' (lower (fst kv)) \<and>
                  \<not> contains ''token'' (lower (fst kv))) state_snapshot"

definition ram_usage :: "env \<Rightarrow> exc + pyval" where
  "ram_usage ev =
     (case psutil_percent ev of
        Inr r \<Rightarrow> Inr r
      | Inl e \<Rightarrow> if e = ImportError then Inr (VStr ''unknown'') else Inl e)"

definition system_info :: "env \<Rightarrow> pydict" where
  "system_info ev =
     (case get_system_info ev of
        Inr i \<Rightarrow> i
      | Inl e \<Rightarrow> [(''os'', VStr (platform_system ev))])"

text \<open>The body of the outer \<open>try\<close> of \<open>_snapshot_state\<close>.\<close>

definition snapshot_body :: "env \<Rightarrow> state \<Rightarrow> exc option \<times> state" where
  "snapshot_body ev s =
     (if \<not> app_truthy ev \<or> \<not> has_state ev then (None, s)
      else case to_dict ev of
        Inl e \<Rightarrow> (Some e, s)
      | Inr state_snapshot \<Rightarrow>
          (case ram_usage ev of
             Inl e \<Rightarrow> (Some e, s)
           | Inr ram \<Rightarrow>
               (None, enqueue (Heartbeat (session_id s) (safe_state state_snapshot)
                                 (system_info ev) ram (time_now ev)) s)))"

definition snapshot_state :: "env \<Rightarrow> state \<Rightarrow> exc option \<times> state" where
  "snapshot_state ev s =
     (if stop_event s then (None, s)
      else case snapshot_body ev s of
        (None, s') \<Rightarrow> (None, s')
      | (Some e, s') \<Rightarrow>
          if is_Exception e then (None, emit (Log Error (SnapshotError e)) s')
          else (Some e, s'))"

definition intervals :: "(string \<times> real) list" where
  "intervals = [(''activity'', 5), (''minimal'', 300), (''default'', 60)]"

definition interval_for :: "string \<Rightarrow> real" where
  "interval_for m =
     (case map_of intervals m of
        Some i \<Rightarrow> i
      | None \<Rightarrow> (case map_of intervals ''default'' of Some d \<Rightarrow> d | None \<Rightarrow> 0))"

definition start_snapshot_timer :: "env \<Rightarrow> state \<Rightarrow> exc option \<times> state" where
  "start_snapshot_timer ev s =
     (if \<not> stop_event s \<and> mode s \<noteq> ''errors_only'' then
        (case snapshot_state ev s of
           (Some e, s1) \<Rightarrow> (Some e, s1)
         | (None, s1) \<Rightarrow>
             (let i = interval_for (mode s1) in
              case timer_start ev of
                Some e \<Rightarrow> (Some e, s1\<lparr>timer := Timer i False False\<rparr>)
              | None \<Rightarrow> (None, emit (TimerStart i) (s1\<lparr>timer := Timer i True False\<rparr>))))
      else (None, s))"

subsection \<open>Setup and teardown\<close>

text \<open>The method \<open>setup\<close> is \<open>setup_plugin\<close> here.\<close>

definition setup_plugin :: "env \<Rightarrow> state \<Rightarrow> exc option \<times> state" where
  "setup_plugin ev s =
     (let s1 = s\<lparr>timer := TimerNone\<rparr> in
      case worker_start ev of
        Some e \<Rightarrow> (Some e, s1)
      | None \<Rightarrow>
          (let s2 = emit WorkerStart s1;
               s3 = s2\<lparr>original_hook := Some (excepthook s2), excepthook := CrashHandler\<rparr>
           in case (if mode s3 \<noteq> ''errors_only'' then start_snapshot_timer ev s3
                    else (None, emit (Log Info SnapshotTimerSkipped) s3)) of
                (Some e, s4) \<Rightarrow> (Some e, s4)
              | (None, s4) \<Rightarrow> (None, emit (Log Info (RecorderStarted (mode s4))) s4)))"

definition restore_hook :: "state \<Rightarrow> state" where
  "restore_hook s =
     (case original_hook s of
        Some h \<Rightarrow> s\<lparr>excepthook := h\<rparr>
      | None \<Rightarrow> s)"

definition teardown :: "state \<Rightarrow> exc option \<times> state" where
  "teardown s =
     (let s1 = s\<lparr>stop_event := True\<rparr> in
      case timer s1 of
        Unset \<Rightarrow> (Some AttributeError, s1)
      | TimerNone \<Rightarrow> (None, emit (Log Info TornDown) (restore_hook s1))
      | Timer i st c \<Rightarrow>
          (None, emit (Log Info TornDown)
                   (restore_hook (emit TimerCancel (s1\<lparr>timer := Timer i st True\<rparr>)))))"

subsection \<open>The crash interceptor\<close>

text \<open>
  \<open>err\<close> and \<open>tb\<close> are \<open>str(exc_value)\<close> and the formatted traceback.
  \<open>crash_send\<close> is the \<open>try\<close> block that logs and posts the report; the call of
  the previous hook is recorded in the trace, not unfolded.
\<close>

definition crash_send :: "env \<Rightarrow> payload \<Rightarrow> state \<Rightarrow> exc option \<times> state" where
  "crash_send ev crash_report s =
     (if \<not> payload_json_ok crash_report
      then (None, emit (Log Error (FailedToSendCrash TypeError)) s)
      else
        (let s1 = emit (Log Error (CrashReport crash_report)) s in
         if \<not> contains ''myapp.com'' (crash_url s1) then
           (let s2 = emit (Post (crash_url s1) crash_report 2) s1 in
            case post_result ev of
              None \<Rightarrow> (None, s2)
            | Some e \<Rightarrow>
                if is_Exception e then (None, emit (Log Error (FailedToSendCrash e)) s2)
                else (Some e, s2))
         else (None, s1)))"

definition crash_handler :: "env \<Rightarrow> string \<Rightarrow> string \<Rightarrow> state \<Rightarrow> exc option \<times> state" where
  "crash_handler ev err tb s =
     (case (if has_state ev then to_dict ev else Inl AttributeError) of
        Inl e \<Rightarrow> (Some e, s)
      | Inr last_state \<Rightarrow>
          (case crash_send ev (Crash (session_id s) err tb (platform_platform ev) last_state) s of
             (Some e, s1) \<Rightarrow> (Some e, s1)
           | (None, s1) \<Rightarrow>
               (case original_hook s1 of
                  Some h \<Rightarrow> (None, emit (CallHook h) s1)
                | None \<Rightarrow> (None, s1))))"

subsection \<open>The upload worker\<close>

text \<open>
  One evaluation of the loop condition of \<open>_upload_worker\<close> and, when the stop
  event is not set, of the loop body. An empty queue makes \<open>get\<close> time out, which
  the bare \<open>except\<close> turns into the next iteration; nothing escapes the body.
\<close>

definition worker_iteration :: "env \<Rightarrow> state \<Rightarrow> state" where
  "worker_iteration ev s =
     (if stop_event s then s
      else case queue s of
        [] \<Rightarrow> s
      | p # q \<Rightarrow>
          (let s1 = s\<lparr>queue := q\<rparr> in
           if \<not> payload_json_ok p then emit (Log Debug (SilentSendFailure TypeError)) s1
           else
             (let s2 = emit (Log Debug (TelemetryPayload p)) s1 in
              if \<not> contains ''myapp.com'' (telemetry_url s2) then
                (let s3 = emit (Post (telemetry_url s2) p 5) s2 in
                 case post_result ev of
                   None \<Rightarrow> s3
                 | Some e \<Rightarrow>
                     if is_Exception e then emit (Log Debug (SilentSendFailure e)) s3
                     else s3)
              else s2)))"

subsection \<open>The recorder as a state machine\<close>

text \<open>
  What can happen to a plugin: the host calls \<open>setup\<close> or \<open>teardown\<close>, a timer
  fires and runs \<open>_start_snapshot_timer\<close>, the worker thread runs one iteration, an
  unhandled exception reaches \<open>sys.excepthook\<close>. Each happens as a whole; an
  exception that escapes goes to the caller and the state stays as it was left.
  A tick is allowed at any moment, which covers every timer that was ever started.
  Here a tick runs without another call in between; the ticks that overlap other
  calls follow below.
\<close>

datatype event =
    Setup env
  | Teardown
  | Tick env
  | WorkerIter env
  | Unhandled env string string

fun step :: "event \<Rightarrow> state \<Rightarrow> state" where
  "step (Setup ev) s = snd (setup_plugin ev s)"
| "step Teardown s = snd (teardown s)"
| "step (Tick ev) s = snd (start_snapshot_timer ev s)"
| "step (WorkerIter ev) s = worker_iteration ev s"
| "step (Unhandled ev err tb) s =
     (case excepthook s of
        CrashHandler \<Rightarrow> snd (crash_handler ev err tb s)
      | Hook n \<Rightarrow> emit (CallHook (Hook n)) s)"

definition run :: "event list \<Rightarrow> state \<Rightarrow> state" where
  "run es s = fold step es s"

subsection \<open>Ticks that overlap other calls\<close>

text \<open>
  A tick runs on the thread of a \<open>threading.Timer\<close>, and \<open>teardown\<close> joins no
  thread, so a call on the host thread can fall between two steps of a tick. The
  last place where a tick looks at the stop event is the first line of
  \<open>_snapshot_state\<close>; from there to \<open>put_nowait\<close> it only reads the host
  (\<open>snapshot_build\<close>), then it writes to the queue or logs (\<open>snapshot_put\<close>) and
  starts the next timer (\<open>tick_finish\<close>). A \<open>system\<close> is the plugin together
  with the ticks that have passed their last check and not yet put: \<open>TickBegin\<close>
  takes a tick up to there, \<open>TickEnd\<close> lets one of them finish, \<open>Whole\<close> is a
  call that runs without interruption.
\<close>

definition snapshot_build :: "env \<Rightarrow> state \<Rightarrow> exc + payload option" where
  "snapshot_build ev s =
     (if \<not> app_truthy ev \<or> \<not> has_state ev then Inr None
      else case to_dict ev of
        Inl e \<Rightarrow> Inl e
      | Inr state_snapshot \<Rightarrow>
          (case ram_usage ev of
             Inl e \<Rightarrow> Inl e
           | Inr ram \<Rightarrow>
               Inr (Some (Heartbeat (session_id s) (safe_state state_snapshot)
                            (system_info ev) ram (time_now ev)))))"

definition snapshot_put :: "exc + payload option \<Rightarrow> state \<Rightarrow> exc option \<times> state" where
  "snapshot_put b s =
     (case b of
        Inr None \<Rightarrow> (None, s)
      | Inr (Some payload) \<Rightarrow> (None, enqueue payload s)
      | Inl e \<Rightarrow>
          if is_Exception e then (None, emit (Log Error (SnapshotError e)) s)
          else (Some e, s))"

definition tick_finish :: "env \<Rightarrow> exc + payload option \<Rightarrow> state \<Rightarrow> exc option \<times> state" where
  "tick_finish ev b s =
     (case snapshot_put b s of
        (Some e, s1) \<Rightarrow> (Some e, s1)
      | (None, s1) \<Rightarrow>
          (let i = interval_for (mode s1) in
           case timer_start ev of
             Some e \<Rightarrow> (Some e, s1\<lparr>timer := Timer i False False\<rparr>)
           | None \<Rightarrow> (None, emit (TimerStart i) (s1\<lparr>timer := Timer i True False\<rparr>))))"

record system =
  plug :: state
  in_flight :: "(env \<times> (exc + payload option)) list"

datatype cevent = Whole event | TickBegin env | TickEnd nat

fun cstep :: "cevent \<Rightarrow> system \<Rightarrow> system" where
  "cstep (Whole e) y = y\<lparr>plug := step e (plug y)\<rparr>"
| "cstep (TickBegin ev) y =
     (if \<not> stop_event (plug y) \<and> mode (plug y) \<noteq> ''errors_only''
      then y\<lparr>in_flight := in_flight y @ [(ev, snapshot_build ev (plug y))]\<rparr>
      else y)"
| "cstep (TickEnd i) y =
     (if i < length (in_flight y)
      then \<lparr> plug = snd (tick_finish (fst (in_flight y ! i)) (snd (in_flight y ! i)) (plug y)),
             in_flight = take i (in_flight y) @ drop (Suc i) (in_flight y) \<rparr>
      else y)"

definition crun :: "cevent list \<Rightarrow> system \<Rightarrow> system" where
  "crun es y = fold cstep es y"

subsection \<open>Predicates used in the statements\<close>

text \<open>The queue holds at most \<open>maxsize\<close> items, and \<open>maxsize\<close> is a real bound.\<close>

definition queue_bounded :: "state \<Rightarrow> bool" where
  "queue_bounded s = (0 < maxsize s \<and> int (length (queue s)) \<le> maxsize s)"

text \<open>
  The state \<open>setup\<close> reaches once the worker has started and the crash handler is
  installed, before it looks at the mode.
\<close>

definition armed :: "state \<Rightarrow> state" where
  "armed s = (emit WorkerStart (s\<lparr>timer := TimerNone\<rparr>))
               \<lparr>original_hook := Some (excepthook s), excepthook := CrashHandler\<rparr>"

fun is_setup :: "event \<Rightarrow> bool" where
  "is_setup (Setup ev) = True"
| "is_setup e = False"

fun is_whole_setup :: "cevent \<Rightarrow> bool" where
  "is_whole_setup (Whole e) = is_setup e"
| "is_whole_setup e = False"

text \<open>
  The hook that was installed when the plugin was built is \<open>h0\<close>: either the plugin
  has saved no hook and \<open>h0\<close> is still installed, or \<open>h0\<close> is the hook it saved.
\<close>

definition hook_inv :: "hook \<Rightarrow> state \<Rightarrow> bool" where
  "hook_inv h0 s =
     (original_hook s = None \<and> excepthook s = h0 \<or> original_hook s = Some h0)"

text \<open>The transport calls and the hook calls recorded in the trace, in order.\<close>

fun post_of :: "effect \<Rightarrow> (string \<times> payload) list" where
  "post_of (Post u p t) = [(u, p)]"
| "post_of x = []"

definition posts :: "state \<Rightarrow> (string \<times> payload) list" where
  "posts s = concat (map post_of (trace s))"

fun hook_of :: "effect \<Rightarrow> hook list" where
  "hook_of (CallHook h) = [h]"
| "hook_of x = []"

definition hook_calls :: "state \<Rightarrow> hook list" where
  "hook_calls s = concat (map hook_of (trace s))"

text \<open>
  The host of a URL as the specification speaks of it: what stands between
  \<open>://\<close> and the next slash. The code never computes it.
\<close>

fun drop_scheme :: "string \<Rightarrow> string option" where
  "drop_scheme [] = None"
| "drop_scheme (c # cs) =
     (if startswith (c # cs) ''://'' then Some (drop 3 (c # cs)) else drop_scheme cs)"

definition url_host :: "string \<Rightarrow> string" where
  "url_host u =
     takeWhile (\<lambda>c. c \<noteq> CHR ''/'') (case drop_scheme u of Some r \<Rightarrow> r | None \<Rightarrow> u)"

subsection \<open>Concrete inputs\<close>

definition args0 :: args where
  "args0 = \<lparr> arg_telemetry_url = None, arg_crash_url = None, arg_mode = ''activity'',
     kwargs_url = None, config_telemetry_url = None, config_crash_url = None,
     manifest_telemetry_url = None, manifest_crash_url = None,
     app_session_id = Some ''s1'' \<rparr>"

definition hb0 :: payload where
  "hb0 = Heartbeat ''s1'' [(''theme'', VStr ''dark'')] [(''os'', VStr ''Linux'')]
           (VStr ''unknown'') 0"

definition full_queue :: state where
  "full_queue = fold enqueue (replicate 100 hb0) (init (Hook 0) args0)"

definition env0 :: env where
  "env0 = \<lparr> app_truthy = True, has_state = True,
     to_dict = Inr [(''theme'', VStr ''dark''), (''userPassword'', VStr ''hunter2''),
                    (''API_TOKEN'', VStr ''abc''), (''count'', VInt 3)],
     get_system_info = Inr [(''os'', VStr ''Linux'')],
     platform_system = ''Linux'', platform_platform = ''Linux-6.1'',
     psutil_percent = Inr (VFloat 42.5), time_now = 1000,
     worker_start = None, timer_start = None, post_result = None \<rparr>"

definition env_no_timer :: env where
  "env_no_timer = env0\<lparr>timer_start := Some RuntimeError\<rparr>"

definition args_errors_only :: args where
  "args_errors_only = args0\<lparr>arg_mode := ''  Errors_Only ''\<rparr>"

definition events0 :: "event list" where
  "events0 = [Tick env0, Unhandled env0 ''boom'' ''Traceback'', WorkerIter env0, Tick env0]"

definition env_state_raises :: env where
  "env_state_raises = env0\<lparr>to_dict := Inl RuntimeError\<rparr>"

definition installed0 :: state where
  "installed0 = snd (setup_plugin env0 (init (Hook 7) args0))"

definition args_path :: args where
  "args_path = args0\<lparr>arg_crash_url := Some ''https://collector.example.org/myapp.com/crash''\<rparr>"

definition installed_path :: state where
  "installed_path = snd (setup_plugin env0 (init (Hook 7) args_path))"

definition state0 :: pydict where
  "state0 = [(''theme'', VStr ''dark''), (''userPassword'', VStr ''hunter2''),
             (''API_TOKEN'', VStr ''abc''), (''count'', VInt 3)]"

definition hb1 :: payload where
  "hb1 = Heartbeat ''s1'' [(''theme'', VStr ''dark''), (''count'', VInt 3)]
           [(''os'', VStr ''Linux'')] (VFloat 42.5) 1000"

definition crash1 :: payload where
  "crash1 = Crash ''s1'' ''boom'' ''Traceback'' ''Linux-6.1'' state0"

definition args_real :: args where
  "args_real = args0\<lparr>arg_telemetry_url := Some ''https://telemetry.example.org/beat'',
                       arg_crash_url := Some ''https://telemetry.example.org/crash''\<rparr>"

definition installed_real :: state where
  "installed_real = snd (setup_plugin env0 (init (Hook 7) args_real))"

definition env_no_psutil :: env where
  "env_no_psutil = env0\<lparr>psutil_percent := Inl ImportError\<rparr>"

definition env_ram_fails :: env where
  "env_ram_fails = env0\<lparr>psutil_percent := Inl OSError\<rparr>"


definition racing_events :: "cevent list" where
  "racing_events = [TickBegin env0, Whole (WorkerIter env0)]"

definition later_events :: "cevent list" where
  "later_events = [TickEnd 0, Whole (Tick env0), TickBegin env0, TickEnd 0]"

definition racing :: system where
  "racing = crun racing_events
              \<lparr>plug = snd (setup_plugin env0 (init (Hook 7) args0)), in_flight = []\<rparr>"

definition torn :: system where
  "torn = cstep (Whole Teardown) racing"

definition half_set_up :: system where
  "half_set_up = \<lparr>plug = snd (setup_plugin env_no_timer (init (Hook 7) args0)), in_flight = []\<rparr>"

definition half_torn :: system where
  "half_torn = cstep (Whole Teardown) half_set_up"

section \<open>How each operation changes the state\<close>

lemma emit_fields [simp]:
  "queue (emit x s) = queue s" "maxsize (emit x s) = maxsize s"
  "stop_event (emit x s) = stop_event s" "mode (emit x s) = mode s"
  "timer (emit x s) = timer s" "excepthook (emit x s) = excepthook s"
  "original_hook (emit x s) = original_hook s" "trace (emit x s) = trace s @ [x]"
  "telemetry_url (emit x s) = telemetry_url s" "crash_url (emit x s) = crash_url s"
  "session_id (emit x s) = session_id s"
  by (simp_all add: emit_def)

lemma enqueue_full:
  "0 < maxsize s \<Longrightarrow> maxsize s \<le> int (length (queue s)) \<Longrightarrow>
   enqueue p s = emit (Log Warning QueueFullDropping) s"
  by (simp add: enqueue_def put_nowait_def)

lemma enqueue_room:
  "\<not> (0 < maxsize s \<and> maxsize s \<le> int (length (queue s))) \<Longrightarrow>
   enqueue p s = s\<lparr>queue := queue s @ [p]\<rparr>"
  by (simp add: enqueue_def put_nowait_def)

lemma enqueue_fields [simp]:
  "maxsize (enqueue p s) = maxsize s"
  "stop_event (enqueue p s) = stop_event s" "mode (enqueue p s) = mode s"
  "timer (enqueue p s) = timer s" "excepthook (enqueue p s) = excepthook s"
  "original_hook (enqueue p s) = original_hook s"
  by (simp_all add: enqueue_def put_nowait_def)

lemma enqueue_bounded: "queue_bounded s \<Longrightarrow> queue_bounded (enqueue p s)"
  by (auto simp: queue_bounded_def enqueue_def put_nowait_def)

lemma snapshot_body_fields [simp]:
  "maxsize (snd (snapshot_body ev s)) = maxsize s"
  "stop_event (snd (snapshot_body ev s)) = stop_event s"
  "mode (snd (snapshot_body ev s)) = mode s"
  "timer (snd (snapshot_body ev s)) = timer s"
  "excepthook (snd (snapshot_body ev s)) = excepthook s"
  "original_hook (snd (snapshot_body ev s)) = original_hook s"
  by (simp_all add: snapshot_body_def split: sum.splits)

lemma snapshot_body_bounded: "queue_bounded s \<Longrightarrow> queue_bounded (snd (snapshot_body ev s))"
  by (simp add: snapshot_body_def enqueue_bounded split: sum.splits)

lemma snapshot_state_snd:
  "snd (snapshot_state ev s) = s \<or>
   snd (snapshot_state ev s) = snd (snapshot_body ev s) \<or>
   snd (snapshot_state ev s) =
     emit (Log Error (SnapshotError (the (fst (snapshot_body ev s))))) (snd (snapshot_body ev s))"
  by (simp add: snapshot_state_def split: prod.splits option.splits)

lemma snapshot_state_fields [simp]:
  "maxsize (snd (snapshot_state ev s)) = maxsize s"
  "stop_event (snd (snapshot_state ev s)) = stop_event s"
  "mode (snd (snapshot_state ev s)) = mode s"
  "timer (snd (snapshot_state ev s)) = timer s"
  "excepthook (snd (snapshot_state ev s)) = excepthook s"
  "original_hook (snd (snapshot_state ev s)) = original_hook s"
  using snapshot_state_snd [of ev s] by auto

lemma snapshot_state_bounded: "queue_bounded s \<Longrightarrow> queue_bounded (snd (snapshot_state ev s))"
  using snapshot_state_snd [of ev s] snapshot_body_bounded [of s ev]
  by (auto simp: queue_bounded_def)

lemma snapshot_state_stopped: "stop_event s \<Longrightarrow> snapshot_state ev s = (None, s)"
  by (simp add: snapshot_state_def)

lemma start_snapshot_timer_idle:
  "stop_event s \<or> mode s = ''errors_only'' \<Longrightarrow> start_snapshot_timer ev s = (None, s)"
  by (auto simp: start_snapshot_timer_def)

lemma start_snapshot_timer_snd:
  "snd (start_snapshot_timer ev s) = s \<or>
   snd (start_snapshot_timer ev s) = snd (snapshot_state ev s) \<or>
   snd (start_snapshot_timer ev s) =
     (snd (snapshot_state ev s))\<lparr>timer := Timer (interval_for (mode s)) False False\<rparr> \<or>
   snd (start_snapshot_timer ev s) =
     emit (TimerStart (interval_for (mode s)))
       ((snd (snapshot_state ev s))\<lparr>timer := Timer (interval_for (mode s)) True False\<rparr>)"
proof (cases "snapshot_state ev s")
  case (Pair r s1)
  then have "mode s1 = mode s"
    using snapshot_state_fields(3) [of ev s] by simp
  with Pair show ?thesis
    by (simp add: start_snapshot_timer_def Let_def split: option.splits)
qed

lemma start_snapshot_timer_fields [simp]:
  "maxsize (snd (start_snapshot_timer ev s)) = maxsize s"
  "stop_event (snd (start_snapshot_timer ev s)) = stop_event s"
  "mode (snd (start_snapshot_timer ev s)) = mode s"
  "excepthook (snd (start_snapshot_timer ev s)) = excepthook s"
  "original_hook (snd (start_snapshot_timer ev s)) = original_hook s"
  using start_snapshot_timer_snd [of ev s] by auto

lemma start_snapshot_timer_bounded:
  "queue_bounded s \<Longrightarrow> queue_bounded (snd (start_snapshot_timer ev s))"
  using start_snapshot_timer_snd [of ev s] snapshot_state_bounded [of s ev]
  by (auto simp: queue_bounded_def)

lemma start_snapshot_timer_set:
  "timer s \<noteq> Unset \<Longrightarrow> timer (snd (start_snapshot_timer ev s)) \<noteq> Unset"
  using start_snapshot_timer_snd [of ev s] by auto

lemma crash_send_fields [simp]:
  "queue (snd (crash_send ev p s)) = queue s"
  "maxsize (snd (crash_send ev p s)) = maxsize s"
  "stop_event (snd (crash_send ev p s)) = stop_event s"
  "mode (snd (crash_send ev p s)) = mode s"
  "timer (snd (crash_send ev p s)) = timer s"
  "excepthook (snd (crash_send ev p s)) = excepthook s"
  "original_hook (snd (crash_send ev p s)) = original_hook s"
  by (simp_all add: crash_send_def Let_def split: option.splits)

lemma crash_handler_fields [simp]:
  "queue (snd (crash_handler ev err tb s)) = queue s"
  "maxsize (snd (crash_handler ev err tb s)) = maxsize s"
  "stop_event (snd (crash_handler ev err tb s)) = stop_event s"
  "mode (snd (crash_handler ev err tb s)) = mode s"
  "timer (snd (crash_handler ev err tb s)) = timer s"
  "excepthook (snd (crash_handler ev err tb s)) = excepthook s"
  "original_hook (snd (crash_handler ev err tb s)) = original_hook s"
proof -
  let ?goal = "\<lambda>s'. queue s' = queue s \<and> maxsize s' = maxsize s \<and>
    stop_event s' = stop_event s \<and> mode s' = mode s \<and> timer s' = timer s \<and>
    excepthook s' = excepthook s \<and> original_hook s' = original_hook s"
  have "?goal (snd (crash_handler ev err tb s))"
  proof (cases "if has_state ev then to_dict ev else Inl AttributeError")
    case (Inl e)
    then show ?thesis by (simp add: crash_handler_def)
  next
    case (Inr d)
    let ?p = "Crash (session_id s) err tb (platform_platform ev) d"
    show ?thesis
    proof (cases "crash_send ev ?p s")
      case (Pair r s1)
      then have "?goal s1"
        using crash_send_fields [of ev ?p s] by simp
      with Pair Inr show ?thesis
        by (cases r; cases "original_hook s") (simp_all add: crash_handler_def)
    qed
  qed
  then show
    "queue (snd (crash_handler ev err tb s)) = queue s"
    "maxsize (snd (crash_handler ev err tb s)) = maxsize s"
    "stop_event (snd (crash_handler ev err tb s)) = stop_event s"
    "mode (snd (crash_handler ev err tb s)) = mode s"
    "timer (snd (crash_handler ev err tb s)) = timer s"
    "excepthook (snd (crash_handler ev err tb s)) = excepthook s"
    "original_hook (snd (crash_handler ev err tb s)) = original_hook s"
    by simp_all
qed

lemma worker_iteration_fields [simp]:
  "maxsize (worker_iteration ev s) = maxsize s"
  "stop_event (worker_iteration ev s) = stop_event s"
  "mode (worker_iteration ev s) = mode s"
  "timer (worker_iteration ev s) = timer s"
  "excepthook (worker_iteration ev s) = excepthook s"
  "original_hook (worker_iteration ev s) = original_hook s"
  by (simp_all add: worker_iteration_def Let_def split: list.splits option.splits)

lemma worker_iteration_queue:
  "queue (worker_iteration ev s) = (if stop_event s then queue s else tl (queue s))"
  by (simp add: worker_iteration_def Let_def split: list.splits option.splits)

lemma worker_iteration_bounded:
  "queue_bounded s \<Longrightarrow> queue_bounded (worker_iteration ev s)"
  by (auto simp: queue_bounded_def worker_iteration_queue)

lemma teardown_fields [simp]:
  "queue (snd (teardown s)) = queue s"
  "maxsize (snd (teardown s)) = maxsize s"
  "stop_event (snd (teardown s))"
  "mode (snd (teardown s)) = mode s"
  "original_hook (snd (teardown s)) = original_hook s"
  by (simp_all add: teardown_def restore_hook_def Let_def split: timer_attr.splits option.splits)

lemma teardown_timer:
  "timer (snd (teardown s)) =
     (case timer s of Timer i st c \<Rightarrow> Timer i st True | t \<Rightarrow> t)"
  by (simp add: teardown_def restore_hook_def Let_def split: timer_attr.splits option.splits)

lemma teardown_ok: "timer s \<noteq> Unset \<Longrightarrow> fst (teardown s) = None"
  by (simp add: teardown_def Let_def split: timer_attr.splits)

lemma teardown_hook:
  "timer s \<noteq> Unset \<Longrightarrow>
   excepthook (snd (teardown s)) =
     (case original_hook s of Some h \<Rightarrow> h | None \<Rightarrow> excepthook s)"
  by (simp add: teardown_def restore_hook_def Let_def split: timer_attr.splits option.splits)

lemma teardown_hook_unset:
  "timer s = Unset \<Longrightarrow> excepthook (snd (teardown s)) = excepthook s"
  by (simp add: teardown_def Let_def)

lemma setup_plugin_snd:
  "snd (setup_plugin ev s) = s\<lparr>timer := TimerNone\<rparr> \<or>
   snd (setup_plugin ev s) =
     emit (Log Info (RecorderStarted (mode s))) (emit (Log Info SnapshotTimerSkipped) (armed s)) \<and>
     mode s = ''errors_only'' \<or>
   snd (setup_plugin ev s) = snd (start_snapshot_timer ev (armed s)) \<or>
   snd (setup_plugin ev s) =
     emit (Log Info (RecorderStarted (mode s))) (snd (start_snapshot_timer ev (armed s)))"
proof (cases "worker_start ev")
  case (Some e)
  then show ?thesis by (simp add: setup_plugin_def)
next
  case None
  show ?thesis
  proof (cases "start_snapshot_timer ev (armed s)")
    case (Pair r s4)
    then have "mode s4 = mode s"
      using start_snapshot_timer_fields(3) [of ev "armed s"] by (simp add: armed_def)
    with Pair None show ?thesis
      by (cases r) (simp_all add: setup_plugin_def Let_def armed_def emit_def)
  qed
qed

lemma armed_fields [simp]:
  "queue (armed s) = queue s" "maxsize (armed s) = maxsize s"
  "stop_event (armed s) = stop_event s" "mode (armed s) = mode s"
  "timer (armed s) = TimerNone" "excepthook (armed s) = CrashHandler"
  "original_hook (armed s) = Some (excepthook s)"
  by (simp_all add: armed_def)

lemma setup_plugin_fields [simp]:
  "maxsize (snd (setup_plugin ev s)) = maxsize s"
  "stop_event (snd (setup_plugin ev s)) = stop_event s"
  "mode (snd (setup_plugin ev s)) = mode s"
  using setup_plugin_snd [of ev s] by auto

lemma setup_plugin_timer: "timer (snd (setup_plugin ev s)) \<noteq> Unset"
  using setup_plugin_snd [of ev s] start_snapshot_timer_set [of "armed s" ev] by auto

lemma setup_plugin_bounded:
  assumes "queue_bounded s"
  shows "queue_bounded (snd (setup_plugin ev s))"
proof -
  have "queue_bounded (armed s)"
    using assms by (simp add: queue_bounded_def)
  then have "queue_bounded (snd (start_snapshot_timer ev (armed s)))"
    by (rule start_snapshot_timer_bounded)
  then show ?thesis
    using assms setup_plugin_snd [of ev s] by (auto simp: queue_bounded_def)
qed

lemma setup_plugin_idle:
  assumes "stop_event s \<or> mode s = ''errors_only''"
  shows "queue (snd (setup_plugin ev s)) = queue s"
    and "timer (snd (setup_plugin ev s)) = TimerNone"
proof -
  have "start_snapshot_timer ev (armed s) = (None, armed s)"
    using assms by (intro start_snapshot_timer_idle) simp
  then show "queue (snd (setup_plugin ev s)) = queue s"
    and "timer (snd (setup_plugin ev s)) = TimerNone"
    using setup_plugin_snd [of ev s] by auto
qed

lemma setup_plugin_hooks:
  "original_hook (snd (setup_plugin ev s)) = original_hook s \<and>
     excepthook (snd (setup_plugin ev s)) = excepthook s \<or>
   original_hook (snd (setup_plugin ev s)) = Some (excepthook s) \<and>
     excepthook (snd (setup_plugin ev s)) = CrashHandler"
  using setup_plugin_snd [of ev s] by auto

lemma step_fields [simp]:
  "maxsize (step e s) = maxsize s" "mode (step e s) = mode s"
  by (cases e; simp split: hook.splits)+

lemma step_bounded:
  assumes "queue_bounded s"
  shows "queue_bounded (step e s)"
proof (cases e)
  case (Setup ev)
  with assms show ?thesis by (simp add: setup_plugin_bounded)
next
  case Teardown
  with assms show ?thesis by (simp add: queue_bounded_def)
next
  case (Tick ev)
  with assms show ?thesis by (simp add: start_snapshot_timer_bounded)
next
  case (WorkerIter ev)
  with assms show ?thesis by (simp add: worker_iteration_bounded)
next
  case (Unhandled ev err tb)
  with assms show ?thesis by (simp add: queue_bounded_def split: hook.splits)
qed

lemma run_Cons [simp]: "run (e # es) s = run es (step e s)"
  by (simp add: run_def)

lemma run_Nil [simp]: "run [] s = s"
  by (simp add: run_def)

lemma run_fields [simp]:
  "maxsize (run es s) = maxsize s" "mode (run es s) = mode s"
  by (induction es arbitrary: s) simp_all

lemma run_bounded: "queue_bounded s \<Longrightarrow> queue_bounded (run es s)"
  by (induction es arbitrary: s) (simp_all add: step_bounded)

lemma fold_enqueue_bounded: "queue_bounded s \<Longrightarrow> queue_bounded (fold enqueue ps s)"
  by (induction ps arbitrary: s) (simp_all add: enqueue_bounded)

lemma init_bounded: "queue_bounded (init h0 a)"
  by (simp add: queue_bounded_def init_def)

lemma fold_enqueue_replicate:
  "int (length (queue s)) + int n \<le> maxsize s \<Longrightarrow>
   queue (fold enqueue (replicate n p) s) = queue s @ replicate n p"
proof (induction n arbitrary: s)
  case 0
  then show ?case by simp
next
  case (Suc n)
  then have room: "\<not> (0 < maxsize s \<and> maxsize s \<le> int (length (queue s)))"
    by simp
  have "queue (fold enqueue (replicate n p) (enqueue p s)) = queue (enqueue p s) @ replicate n p"
    using Suc.prems by (intro Suc.IH) (simp add: enqueue_room [OF room])
  then show ?case
    by (simp add: enqueue_room [OF room] replicate_app_Cons_same)
qed

lemma fold_enqueue_maxsize [simp]: "maxsize (fold enqueue ps s) = maxsize s"
  by (induction ps arbitrary: s) simp_all

lemma step_errors_only:
  assumes "mode s = ''errors_only''" and "queue s = []"
    and "timer s = Unset \<or> timer s = TimerNone"
  shows "queue (step e s) = [] \<and> (timer (step e s) = Unset \<or> timer (step e s) = TimerNone)"
proof (cases e)
  case (Setup ev)
  with assms show ?thesis by (simp add: setup_plugin_idle)
next
  case Teardown
  with assms show ?thesis by (auto simp: teardown_timer)
next
  case (Tick ev)
  with assms show ?thesis by (simp add: start_snapshot_timer_idle)
next
  case (WorkerIter ev)
  with assms show ?thesis by (simp add: worker_iteration_queue)
next
  case (Unhandled ev err tb)
  with assms show ?thesis by (simp split: hook.splits)
qed

lemma run_errors_only:
  "mode s = ''errors_only'' \<Longrightarrow> queue s = [] \<Longrightarrow> timer s = Unset \<or> timer s = TimerNone \<Longrightarrow>
   queue (run es s) = [] \<and> (timer (run es s) = Unset \<or> timer (run es s) = TimerNone)"
proof (induction es arbitrary: s)
  case Nil
  then show ?case by simp
next
  case (Cons e es)
  have "queue (step e s) = [] \<and> (timer (step e s) = Unset \<or> timer (step e s) = TimerNone)"
    using Cons.prems by (intro step_errors_only)
  with Cons.prems(1) show ?case
    by (simp add: Cons.IH)
qed

lemma interval_for_other:
  "m \<noteq> ''activity'' \<Longrightarrow> m \<noteq> ''minimal'' \<Longrightarrow> interval_for m = 60"
  by (simp add: interval_for_def intervals_def)

lemma start_snapshot_timer_started:
  assumes "\<not> stop_event s" and "mode s \<noteq> ''errors_only''"
    and "fst (start_snapshot_timer ev s) = None"
  shows "timer (snd (start_snapshot_timer ev s)) = Timer (interval_for (mode s)) True False"
proof (cases "snapshot_state ev s")
  case (Pair r s1)
  then have "mode s1 = mode s"
    using snapshot_state_fields(3) [of ev s] by simp
  with Pair assms show ?thesis
    by (cases r; cases "timer_start ev") (simp_all add: start_snapshot_timer_def Let_def)
qed

lemma step_stopped:
  assumes "stop_event s"
  shows "stop_event (step e s) \<and> queue (step e s) = queue s"
proof (cases e)
  case (Setup ev)
  with assms show ?thesis by (simp add: setup_plugin_idle)
next
  case Teardown
  with assms show ?thesis by simp
next
  case (Tick ev)
  with assms show ?thesis by (simp add: start_snapshot_timer_idle)
next
  case (WorkerIter ev)
  with assms show ?thesis by (simp add: worker_iteration_queue)
next
  case (Unhandled ev err tb)
  with assms show ?thesis by (simp split: hook.splits)
qed

lemma run_stopped: "stop_event s \<Longrightarrow> stop_event (run es s) \<and> queue (run es s) = queue s"
proof (induction es arbitrary: s)
  case Nil
  then show ?case by simp
next
  case (Cons e es)
  from step_stopped [OF Cons.prems, of e] Cons.IH [of "step e s"] show ?case
    by simp
qed

lemma step_timer_set: "timer s \<noteq> Unset \<Longrightarrow> timer (step e s) \<noteq> Unset"
  by (cases e)
     (simp_all add: setup_plugin_timer teardown_timer start_snapshot_timer_set
        split: hook.splits timer_attr.splits)

lemma run_timer_set: "timer s \<noteq> Unset \<Longrightarrow> timer (run es s) \<noteq> Unset"
  by (induction es arbitrary: s) (simp_all add: step_timer_set)

lemma teardown_hook_inv: "hook_inv h0 s \<Longrightarrow> hook_inv h0 (snd (teardown s))"
  by (cases "timer s = Unset")
     (auto simp: hook_inv_def teardown_hook teardown_hook_unset)

lemma step_hook_inv: "\<not> is_setup e \<Longrightarrow> hook_inv h0 s \<Longrightarrow> hook_inv h0 (step e s)"
proof (cases e)
  case Teardown
  then show "hook_inv h0 s \<Longrightarrow> hook_inv h0 (step e s)"
    by (simp add: teardown_hook_inv)
qed (auto simp: hook_inv_def split: hook.splits)

lemma run_hook_inv:
  "list_all (\<lambda>e. \<not> is_setup e) es \<Longrightarrow> hook_inv h0 s \<Longrightarrow> hook_inv h0 (run es s)"
  by (induction es arbitrary: s) (simp_all add: step_hook_inv)

lemma setup_plugin_hook_inv: "hook_inv h0 (snd (setup_plugin ev (init h0 a)))"
  using setup_plugin_hooks [of ev "init h0 a"]
  by (auto simp: hook_inv_def init_def)

lemma teardown_restores:
  "hook_inv h0 s \<Longrightarrow> timer s \<noteq> Unset \<Longrightarrow> excepthook (snd (teardown s)) = h0"
  by (auto simp: hook_inv_def teardown_hook)

lemma posts_emit [simp]: "posts (emit x s) = posts s @ post_of x"
  by (simp add: posts_def emit_def)

lemma hook_calls_emit [simp]: "hook_calls (emit x s) = hook_calls s @ hook_of x"
  by (simp add: hook_calls_def emit_def)

lemma crash_send_posts:
  "posts (snd (crash_send ev p s)) =
     posts s @ (if payload_json_ok p \<and> \<not> contains ''myapp.com'' (crash_url s)
                then [(crash_url s, p)] else [])"
  by (simp add: crash_send_def Let_def split: option.splits)

lemma crash_send_hook_calls [simp]:
  "hook_calls (snd (crash_send ev p s)) = hook_calls s"
  by (simp add: crash_send_def Let_def split: option.splits)

lemma crash_send_logged:
  "payload_json_ok p \<Longrightarrow> Log Error (CrashReport p) \<in> set (trace (snd (crash_send ev p s)))"
  by (simp add: crash_send_def Let_def split: option.splits)

lemma crash_send_posted:
  "payload_json_ok p \<Longrightarrow> \<not> contains ''myapp.com'' (crash_url s) \<Longrightarrow>
   Post (crash_url s) p 2 \<in> set (trace (snd (crash_send ev p s)))"
  by (simp add: crash_send_def Let_def split: option.splits)

lemma crash_send_escapes:
  "fst (crash_send ev p s) =
     (case post_result ev of
        Some e \<Rightarrow> if payload_json_ok p \<and> \<not> contains ''myapp.com'' (crash_url s) \<and> \<not> is_Exception e
                  then Some e else None
      | None \<Rightarrow> None)"
  by (simp add: crash_send_def Let_def split: option.splits)

lemma crash_handler_built:
  assumes "has_state ev" and "to_dict ev = Inr d"
  shows "snd (crash_handler ev err tb s) =
     (let r = crash_send ev (Crash (session_id s) err tb (platform_platform ev) d) s in
      case (fst r, original_hook s) of
        (None, Some h) \<Rightarrow> emit (CallHook h) (snd r)
      | _ \<Rightarrow> snd r)"
    and "fst (crash_handler ev err tb s) =
      fst (crash_send ev (Crash (session_id s) err tb (platform_platform ev) d) s)"
proof -
  let ?p = "Crash (session_id s) err tb (platform_platform ev) d"
  obtain r s1 where c: "crash_send ev ?p s = (r, s1)"
    by (cases "crash_send ev ?p s")
  then have o: "original_hook s1 = original_hook s"
    using crash_send_fields(7) [of ev ?p s] by simp
  from assms c o show "snd (crash_handler ev err tb s) =
     (let r = crash_send ev ?p s in
      case (fst r, original_hook s) of
        (None, Some h) \<Rightarrow> emit (CallHook h) (snd r)
      | _ \<Rightarrow> snd r)"
    by (cases r; cases "original_hook s") (simp_all add: crash_handler_def)
  from assms c o show "fst (crash_handler ev err tb s) = fst (crash_send ev ?p s)"
    by (cases r; cases "original_hook s") (simp_all add: crash_handler_def)
qed

lemma crash_handler_state_raises:
  "has_state ev \<Longrightarrow> to_dict ev = Inl e \<Longrightarrow> crash_handler ev err tb s = (Some e, s)"
  by (simp add: crash_handler_def)

lemma crash_handler_calls_hook_once:
  assumes "has_state ev" and "to_dict ev = Inr d" and "original_hook s = Some h"
    and "fst (crash_handler ev err tb s) = None"
  shows "hook_calls (snd (crash_handler ev err tb s)) = hook_calls s @ [h]"
  using assms(3,4) crash_handler_built [OF assms(1,2), of err tb s]
  by (simp add: Let_def)

lemma posts_queue_update [simp]: "posts (s\<lparr>queue := q\<rparr>) = posts s"
  by (simp add: posts_def)

lemma worker_iteration_posts:
  "\<not> stop_event s \<Longrightarrow> queue s = p # q \<Longrightarrow>
   posts (worker_iteration ev s) =
     posts s @ (if payload_json_ok p \<and> \<not> contains ''myapp.com'' (telemetry_url s)
                then [(telemetry_url s, p)] else [])"
  by (simp add: worker_iteration_def Let_def split: option.splits)

lemma worker_iteration_logged:
  "\<not> stop_event s \<Longrightarrow> queue s = p # q \<Longrightarrow> payload_json_ok p \<Longrightarrow>
   Log Debug (TelemetryPayload p) \<in> set (trace (worker_iteration ev s))"
  by (simp add: worker_iteration_def Let_def split: option.splits)

lemma crash_handler_posts:
  assumes "has_state ev" and "to_dict ev = Inr d"
  shows "posts (snd (crash_handler ev err tb s)) =
     posts s @ (if json_ok (VDict d) \<and> \<not> contains ''myapp.com'' (crash_url s)
                then [(crash_url s, Crash (session_id s) err tb (platform_platform ev) d)]
                else [])"
  using crash_handler_built(1) [OF assms, of err tb s]
  by (simp add: Let_def crash_send_posts split: option.splits)

lemma crash_handler_logged:
  assumes "has_state ev" and "to_dict ev = Inr d" and "json_ok (VDict d)"
  shows "Log Error (CrashReport (Crash (session_id s) err tb (platform_platform ev) d))
           \<in> set (trace (snd (crash_handler ev err tb s)))"
proof -
  let ?p = "Crash (session_id s) err tb (platform_platform ev) d"
  have "Log Error (CrashReport ?p) \<in> set (trace (snd (crash_send ev ?p s)))"
    using assms(3) by (intro crash_send_logged) simp
  then show ?thesis
    using crash_handler_built(1) [OF assms(1,2), of err tb s]
    by (simp add: Let_def split: option.splits)
qed

lemma crash_handler_posted:
  assumes "has_state ev" and "to_dict ev = Inr d" and "json_ok (VDict d)"
    and "\<not> contains ''myapp.com'' (crash_url s)"
  shows "Post (crash_url s) (Crash (session_id s) err tb (platform_platform ev) d) 2
           \<in> set (trace (snd (crash_handler ev err tb s)))"
proof -
  let ?p = "Crash (session_id s) err tb (platform_platform ev) d"
  have "Post (crash_url s) ?p 2 \<in> set (trace (snd (crash_send ev ?p s)))"
    using assms(3,4) by (intro crash_send_posted) simp_all
  then show ?thesis
    using crash_handler_built(1) [OF assms(1,2), of err tb s]
    by (simp add: Let_def split: option.splits)
qed

lemma map_of_safe_state:
  "map_of (safe_state d) k = (if sensitive k then None else map_of d k)"
  by (induction d) (auto simp: safe_state_def sensitive_def)

lemma snapshot_body_enqueued:
  assumes "queue (snd (snapshot_body ev s)) \<noteq> queue s"
  shows "\<exists>d ram. to_dict ev = Inr d \<and> ram_usage ev = Inr ram \<and>
           queue (snd (snapshot_body ev s)) =
             queue s @ [Heartbeat (session_id s) (safe_state d) (system_info ev) ram (time_now ev)]"
  using assms
  by (auto simp: snapshot_body_def enqueue_def put_nowait_def split: sum.splits if_splits)

lemma snapshot_state_enqueued:
  assumes "queue (snd (snapshot_state ev s)) \<noteq> queue s"
  shows "\<exists>d ram. to_dict ev = Inr d \<and> ram_usage ev = Inr ram \<and>
           queue (snd (snapshot_state ev s)) =
             queue s @ [Heartbeat (session_id s) (safe_state d) (system_info ev) ram (time_now ev)]"
proof -
  have "queue (snd (snapshot_state ev s)) = queue s \<or>
        queue (snd (snapshot_state ev s)) = queue (snd (snapshot_body ev s))"
    using snapshot_state_snd [of ev s] by auto
  with assms snapshot_body_enqueued [of ev s] show ?thesis
    by auto
qed

lemma snapshot_state_normal:
  assumes "\<not> stop_event s" and "app_truthy ev" and "has_state ev"
    and "to_dict ev = Inr d" and "ram_usage ev = Inr ram"
  shows "snapshot_state ev s =
     (None, enqueue (Heartbeat (session_id s) (safe_state d) (system_info ev) ram (time_now ev)) s)"
  using assms by (simp add: snapshot_state_def snapshot_body_def)

lemma snapshot_state_ram_raises:
  assumes "\<not> stop_event s" and "app_truthy ev" and "has_state ev"
    and "to_dict ev = Inr d" and "ram_usage ev = Inl e"
  shows "snapshot_state ev s =
     (if is_Exception e then (None, emit (Log Error (SnapshotError e)) s) else (Some e, s))"
  using assms by (simp add: snapshot_state_def snapshot_body_def)

lemma safe_state0: "safe_state state0 = [(''theme'', VStr ''dark''), (''count'', VInt 3)]"
  by code_simp







subsection \<open>The two halves of a tick\<close>

lemma snapshot_state_phases:
  "snapshot_state ev s =
     (if stop_event s then (None, s) else snapshot_put (snapshot_build ev s) s)"
  by (simp add: snapshot_state_def snapshot_body_def snapshot_build_def snapshot_put_def
        split: sum.splits)

lemma start_snapshot_timer_phases:
  "start_snapshot_timer ev s =
     (if \<not> stop_event s \<and> mode s \<noteq> ''errors_only''
      then tick_finish ev (snapshot_build ev s) s else (None, s))"
  by (simp add: start_snapshot_timer_def tick_finish_def snapshot_state_phases)

lemma enqueue_queue:
  "queue (enqueue p s) = queue s \<or> queue (enqueue p s) = queue s @ [p]"
  by (simp add: enqueue_def put_nowait_def)

lemma snapshot_put_fields [simp]:
  "maxsize (snd (snapshot_put b s)) = maxsize s"
  "stop_event (snd (snapshot_put b s)) = stop_event s"
  "mode (snd (snapshot_put b s)) = mode s"
  "timer (snd (snapshot_put b s)) = timer s"
  "excepthook (snd (snapshot_put b s)) = excepthook s"
  "original_hook (snd (snapshot_put b s)) = original_hook s"
  by (simp_all add: snapshot_put_def split: sum.splits option.splits)

lemma snapshot_put_length:
  "length (queue (snd (snapshot_put b s))) \<le> Suc (length (queue s))"
  using enqueue_queue [of _ s]
  by (auto simp: snapshot_put_def split: sum.splits option.splits)
     (metis length_append_singleton le_SucI order_refl)

lemma tick_finish_snd:
  "snd (tick_finish ev b s) = snd (snapshot_put b s) \<or>
   snd (tick_finish ev b s) =
     (snd (snapshot_put b s))\<lparr>timer := Timer (interval_for (mode s)) False False\<rparr> \<or>
   snd (tick_finish ev b s) =
     emit (TimerStart (interval_for (mode s)))
       ((snd (snapshot_put b s))\<lparr>timer := Timer (interval_for (mode s)) True False\<rparr>)"
proof (cases "snapshot_put b s")
  case (Pair r s1)
  then have "mode s1 = mode s"
    using snapshot_put_fields(3) [of b s] by simp
  with Pair show ?thesis
    by (simp add: tick_finish_def Let_def split: option.splits)
qed

lemma tick_finish_fields [simp]:
  "maxsize (snd (tick_finish ev b s)) = maxsize s"
  "stop_event (snd (tick_finish ev b s)) = stop_event s"
  "mode (snd (tick_finish ev b s)) = mode s"
  "excepthook (snd (tick_finish ev b s)) = excepthook s"
  "original_hook (snd (tick_finish ev b s)) = original_hook s"
  using tick_finish_snd [of ev b s] by auto

lemma tick_finish_timer:
  "timer s \<noteq> Unset \<Longrightarrow> timer (snd (tick_finish ev b s)) \<noteq> Unset"
  using tick_finish_snd [of ev b s] by auto

lemma tick_finish_length:
  "length (queue (snd (tick_finish ev b s))) \<le> Suc (length (queue s))"
  using tick_finish_snd [of ev b s] snapshot_put_length [of b s] by auto

lemma crun_Cons [simp]: "crun (e # es) y = crun es (cstep e y)"
  by (simp add: crun_def)

lemma crun_Nil [simp]: "crun [] y = y"
  by (simp add: crun_def)

lemma cstep_timer_set:
  "timer (plug y) \<noteq> Unset \<Longrightarrow> timer (plug (cstep e y)) \<noteq> Unset"
  by (cases e) (simp_all add: step_timer_set tick_finish_timer)

lemma crun_timer_set:
  "timer (plug y) \<noteq> Unset \<Longrightarrow> timer (plug (crun es y)) \<noteq> Unset"
  by (induction es arbitrary: y) (simp_all add: cstep_timer_set)

lemma cstep_hook_inv:
  assumes "\<not> is_whole_setup e" and "hook_inv h0 (plug y)"
  shows "hook_inv h0 (plug (cstep e y))"
proof (cases e)
  case (Whole x)
  with assms show ?thesis by (simp add: step_hook_inv)
next
  case (TickBegin ev)
  with assms show ?thesis by simp
next
  case (TickEnd i)
  with assms show ?thesis by (simp add: hook_inv_def)
qed

lemma crun_hook_inv:
  "list_all (\<lambda>e. \<not> is_whole_setup e) es \<Longrightarrow> hook_inv h0 (plug y) \<Longrightarrow>
   hook_inv h0 (plug (crun es y))"
  by (induction es arbitrary: y) (simp_all add: cstep_hook_inv)

lemma cstep_stopped:
  assumes "stop_event (plug y)"
  shows "stop_event (plug (cstep e y)) \<and>
         length (queue (plug (cstep e y))) + length (in_flight (cstep e y))
           \<le> length (queue (plug y)) + length (in_flight y)"
proof (cases e)
  case (Whole x)
  with step_stopped [OF assms, of x] show ?thesis by simp
next
  case (TickBegin ev)
  with assms show ?thesis by simp
next
  case (TickEnd i)
  with assms tick_finish_length [of "fst (in_flight y ! i)" "snd (in_flight y ! i)" "plug y"]
  show ?thesis by auto
qed

lemma crun_stopped:
  "stop_event (plug y) \<Longrightarrow>
   stop_event (plug (crun es y)) \<and>
   length (queue (plug (crun es y))) + length (in_flight (crun es y))
     \<le> length (queue (plug y)) + length (in_flight y)"
proof (induction es arbitrary: y)
  case Nil
  then show ?case by simp
next
  case (Cons e es)
  from cstep_stopped [OF Cons.prems, of e] Cons.IH [of "cstep e y"] show ?case
    by simp
qed

lemma cstep_quiet:
  assumes "stop_event (plug y)" and "in_flight y = []"
  shows "stop_event (plug (cstep e y)) \<and> in_flight (cstep e y) = [] \<and>
         queue (plug (cstep e y)) = queue (plug y)"
proof (cases e)
  case (Whole x)
  with step_stopped [OF assms(1), of x] assms(2) show ?thesis by simp
next
  case (TickBegin ev)
  with assms show ?thesis by simp
next
  case (TickEnd i)
  with assms show ?thesis by simp
qed

lemma crun_quiet:
  "stop_event (plug y) \<Longrightarrow> in_flight y = [] \<Longrightarrow>
   stop_event (plug (crun es y)) \<and> in_flight (crun es y) = [] \<and>
   queue (plug (crun es y)) = queue (plug y)"
proof (induction es arbitrary: y)
  case Nil
  then show ?case by simp
next
  case (Cons e es)
  from cstep_quiet [OF Cons.prems, of e] Cons.IH [of "cstep e y"] show ?case
    by simp
qed

section \<open>The claims\<close>

subsection \<open>Teardown without setup\<close>

text \<open>
  C10. \<open>teardown\<close> on an instance on which \<open>setup\<close> was never called raises
  AttributeError: \<open>self._timer\<close> is assigned only in \<open>setup\<close>, and \<open>teardown\<close>
  reads it right after setting the stop event.
\<close>

theorem teardown_without_setup_raises:
  "fst (teardown (init h0 a)) = Some AttributeError \<and>
   timer (init h0 a) = Unset \<and>
   stop_event (snd (teardown (init h0 a)))"
  by (simp add: teardown_def init_def)

subsection \<open>The bounded queue\<close>

text \<open>
  C2. Whatever happens to a plugin, and for every sequence of enqueue operations, the
  queue never holds more than its capacity, which is 100. An enqueue on a full queue
  is refused by \<open>put_nowait\<close>, a warning that the heartbeat is dropped is logged, and
  the queue is left as it was: nothing is evicted.
\<close>

theorem queue_never_exceeds_capacity:
  "maxsize (run es (init h0 a)) = 100 \<and>
   length (queue (run es (init h0 a))) \<le> 100 \<and>
   length (queue (fold enqueue ps (init h0 a))) \<le> 100 \<and>
   (queue_bounded s \<longrightarrow> queue_bounded (enqueue p s) \<and> queue_bounded (run es s)) \<and>
   (0 < maxsize s \<and> maxsize s \<le> int (length (queue s)) \<longrightarrow>
      put_nowait p s = None \<and>
      queue (enqueue p s) = queue s \<and>
      trace (enqueue p s) = trace s @ [Log Warning QueueFullDropping])"
proof -
  have m: "maxsize (run es (init h0 a)) = 100"
    by (simp add: init_def)
  have "queue_bounded (run es (init h0 a))"
    by (rule run_bounded [OF init_bounded])
  with m have r: "length (queue (run es (init h0 a))) \<le> 100"
    by (simp add: queue_bounded_def)
  have "queue_bounded (fold enqueue ps (init h0 a))"
    by (rule fold_enqueue_bounded [OF init_bounded])
  moreover have "maxsize (fold enqueue ps s') = maxsize s'" for s'
    by (induction ps arbitrary: s') simp_all
  ultimately have f: "length (queue (fold enqueue ps (init h0 a))) \<le> 100"
    by (simp add: queue_bounded_def init_def)
  have full: "0 < maxsize s \<and> maxsize s \<le> int (length (queue s)) \<longrightarrow>
      put_nowait p s = None \<and>
      queue (enqueue p s) = queue s \<and>
      trace (enqueue p s) = trace s @ [Log Warning QueueFullDropping]"
    by (simp add: enqueue_def put_nowait_def)
  from m r f full show ?thesis
    by (simp add: enqueue_bounded run_bounded)
qed

theorem queue_never_exceeds_capacity_witness:
  "queue_bounded full_queue \<and>
   0 < maxsize full_queue \<and> maxsize full_queue \<le> int (length (queue full_queue)) \<and>
   length (queue full_queue) = 100 \<and>
   queue_bounded (enqueue hb0 full_queue) \<and>
   put_nowait hb0 full_queue = None \<and>
   queue (enqueue hb0 full_queue) = queue full_queue \<and>
   trace (enqueue hb0 full_queue) = trace full_queue @ [Log Warning QueueFullDropping]"
proof -
  have q: "queue full_queue = replicate 100 hb0"
    using fold_enqueue_replicate [of "init (Hook 0) args0" 100 hb0]
    by (simp add: full_queue_def init_def)
  have m: "maxsize full_queue = 100"
    by (simp add: full_queue_def init_def del: fold_replicate)
  have b: "queue_bounded full_queue"
    by (simp add: queue_bounded_def q m)
  have h: "0 < maxsize full_queue \<and> maxsize full_queue \<le> int (length (queue full_queue))"
    by (simp add: q m)
  from queue_never_exceeds_capacity [where s = full_queue and p = hb0] b h q
  show ?thesis by simp
qed

subsection \<open>Modes and intervals\<close>

text \<open>
  C5. The interval table is exact: \<open>activity\<close> gives 5 seconds, \<open>minimal\<close> gives 300,
  every other mode gives 60, and a tick that runs in a mode other than
  \<open>errors_only\<close> and is not interrupted by an exception leaves a started timer with
  that interval. A plugin whose mode normalises to \<open>errors_only\<close> never enqueues a
  heartbeat: after every sequence of events its queue is empty, so no event of the
  sequence has put anything into it, and it never holds a timer.
\<close>

theorem mode_interval_mapping:
  "interval_for ''activity'' = 5 \<and> interval_for ''minimal'' = 300 \<and>
   (m \<noteq> ''activity'' \<and> m \<noteq> ''minimal'' \<longrightarrow> interval_for m = 60) \<and>
   (\<not> stop_event s \<and> mode s \<noteq> ''errors_only'' \<and> fst (start_snapshot_timer ev s) = None \<longrightarrow>
      timer (snd (start_snapshot_timer ev s)) = Timer (interval_for (mode s)) True False) \<and>
   (normalize_mode (arg_mode a) = ''errors_only'' \<longrightarrow>
      queue (run es (init h0 a)) = [] \<and>
      (timer (run es (init h0 a)) = Unset \<or> timer (run es (init h0 a)) = TimerNone))"
proof -
  have known: "interval_for ''activity'' = 5 \<and> interval_for ''minimal'' = 300"
    by (simp add: interval_for_def intervals_def)
  have quiet: "queue (run es (init h0 a)) = [] \<and>
      (timer (run es (init h0 a)) = Unset \<or> timer (run es (init h0 a)) = TimerNone)"
    if "normalize_mode (arg_mode a) = ''errors_only''"
    using that by (intro run_errors_only) (simp_all add: init_def)
  from known quiet show ?thesis
    by (simp add: interval_for_other start_snapshot_timer_started)
qed

theorem mode_interval_mapping_witness:
  "interval_for ''verbose'' = 60 \<and>
   \<not> stop_event (init (Hook 0) args0) \<and>
   mode (init (Hook 0) args0) = ''activity'' \<and>
   fst (start_snapshot_timer env0 (init (Hook 0) args0)) = None \<and>
   timer (snd (start_snapshot_timer env0 (init (Hook 0) args0))) = Timer 5 True False \<and>
   normalize_mode (arg_mode args_errors_only) = ''errors_only'' \<and>
   queue (run (Setup env0 # events0) (init (Hook 0) args_errors_only)) = [] \<and>
   (timer (run (Setup env0 # events0) (init (Hook 0) args_errors_only)) = Unset \<or>
    timer (run (Setup env0 # events0) (init (Hook 0) args_errors_only)) = TimerNone)"
proof -
  have m: "mode (init (Hook 0) args0) = ''activity''"
    by code_simp
  have r: "\<not> stop_event (init (Hook 0) args0)"
    by (simp add: init_def)
  have f: "fst (start_snapshot_timer env0 (init (Hook 0) args0)) = None"
    by code_simp
  have n: "normalize_mode (arg_mode args_errors_only) = ''errors_only''"
    by code_simp
  from mode_interval_mapping [where m = "''verbose''" and s = "init (Hook 0) args0"
      and ev = env0 and a = args_errors_only and es = "Setup env0 # events0"
      and ?h0.0 = "Hook 0"] m r f n
  show ?thesis by simp
qed

subsection \<open>Teardown\<close>

text \<open>
  C6 says that after \<open>teardown\<close> has returned no further heartbeat is enqueued and
  the original hook is installed again. A tick that has passed its last look at the
  stop event when \<open>teardown\<close> runs still puts its heartbeat afterwards: below, the
  queue is empty and hook 7 is back when \<open>teardown\<close> has returned, and the tick
  under way then leaves its heartbeat in the queue. And on a plugin that was set up
  twice, \<open>teardown\<close> installs the plugin's own handler, which the second
  \<open>setup\<close> had saved as the previous hook.
\<close>

theorem inflight_tick_enqueues_after_teardown:
  "length (in_flight racing) = 1 \<and>
   fst (teardown (plug racing)) = None \<and>
   stop_event (plug torn) \<and> excepthook (plug torn) = Hook 7 \<and>
   queue (plug torn) = [] \<and>
   queue (plug (cstep (TickEnd 0) torn)) = [hb1] \<and>
   excepthook installed0 = CrashHandler \<and>
   fst (teardown (snd (setup_plugin env0 installed0))) = None \<and>
   excepthook (snd (teardown (snd (setup_plugin env0 installed0)))) = CrashHandler"
  by code_simp

text \<open>
  C6, as the code has it. Take a plugin as built when \<open>h0\<close> was the exception hook,
  call \<open>setup\<close> on it once, with whatever outcome (it may have failed at the worker
  start, at the first snapshot or at the timer start), and let any calls other than
  another \<open>setup\<close> follow, ticks that overlap them included. Then \<open>teardown\<close>
  raises nothing, leaves \<open>h0\<close> installed as \<open>sys.excepthook\<close> and the stop event
  set, and does not touch the queue. Whatever happens afterwards, the queue grows by
  at most one heartbeat for each tick that had passed its last look at the stop event
  when \<open>teardown\<close> ran; a tick that begins later puts nothing, and with no such
  tick under way nothing is enqueued at all. A second \<open>teardown\<close>, at once or
  later, raises nothing and leaves \<open>h0\<close> installed.
\<close>

theorem teardown_restores_hook_and_bounds_stray_heartbeats:
  assumes "list_all (\<lambda>e. \<not> is_whole_setup e) es"
    and "y2 = crun es \<lparr>plug = snd (setup_plugin ev (init h0 a)), in_flight = []\<rparr>"
    and "y3 = cstep (Whole Teardown) y2"
  shows "fst (teardown (plug y2)) = None \<and> excepthook (plug y3) = h0 \<and>
         stop_event (plug y3) \<and> queue (plug y3) = queue (plug y2) \<and>
         length (queue (plug (crun es' y3))) + length (in_flight (crun es' y3))
           \<le> length (queue (plug y3)) + length (in_flight y3) \<and>
         (in_flight y3 = [] \<longrightarrow> queue (plug (crun es' y3)) = queue (plug y3)) \<and>
         fst (teardown (plug y3)) = None \<and> excepthook (snd (teardown (plug y3))) = h0 \<and>
         fst (teardown (plug (crun es' y3))) = None"
proof -
  have p3: "plug y3 = snd (teardown (plug y2))"
    by (simp add: assms(3))
  have t2: "timer (plug y2) \<noteq> Unset"
    unfolding assms(2) by (intro crun_timer_set) (simp add: setup_plugin_timer)
  have h2: "hook_inv h0 (plug y2)"
    unfolding assms(2) by (intro crun_hook_inv assms(1)) (simp add: setup_plugin_hook_inv)
  have t3: "timer (plug y3) \<noteq> Unset"
    using t2 by (simp add: p3 teardown_timer split: timer_attr.splits)
  have h3: "hook_inv h0 (plug y3)"
    unfolding p3 by (rule teardown_hook_inv [OF h2])
  have stop: "stop_event (plug y3)"
    by (simp add: p3)
  have "fst (teardown (plug y2)) = None"
    by (rule teardown_ok [OF t2])
  moreover have "excepthook (plug y3) = h0"
    unfolding p3 by (rule teardown_restores [OF h2 t2])
  moreover have "queue (plug y3) = queue (plug y2)"
    by (simp add: p3)
  moreover have "length (queue (plug (crun es' y3))) + length (in_flight (crun es' y3))
           \<le> length (queue (plug y3)) + length (in_flight y3)"
    using crun_stopped [OF stop] by simp
  moreover have "queue (plug (crun es' y3)) = queue (plug y3)" if "in_flight y3 = []"
    using crun_quiet [OF stop that] by simp
  moreover have "fst (teardown (plug y3)) = None"
    by (rule teardown_ok [OF t3])
  moreover have "excepthook (snd (teardown (plug y3))) = h0"
    by (rule teardown_restores [OF h3 t3])
  moreover have "fst (teardown (plug (crun es' y3))) = None"
    by (intro teardown_ok crun_timer_set t3)
  ultimately show ?thesis
    using stop by simp
qed

theorem teardown_restores_hook_and_bounds_stray_heartbeats_witness:
  "list_all (\<lambda>e. \<not> is_whole_setup e) racing_events \<and>
   excepthook (plug racing) = CrashHandler \<and>
   fst (teardown (plug racing)) = None \<and>
   excepthook (plug torn) = Hook 7 \<and> stop_event (plug torn) \<and>
   length (in_flight torn) = 1 \<and> queue (plug torn) = [] \<and>
   length (queue (plug (crun later_events torn))) + length (in_flight (crun later_events torn))
     \<le> 1 \<and>
   fst (teardown (plug torn)) = None \<and>
   fst (teardown (plug (crun later_events torn))) = None \<and>
   fst (setup_plugin env_no_timer (init (Hook 7) args0)) = Some RuntimeError \<and>
   excepthook (plug half_set_up) = CrashHandler \<and>
   in_flight half_torn = [] \<and>
   fst (teardown (plug half_set_up)) = None \<and>
   excepthook (plug half_torn) = Hook 7 \<and>
   queue (plug (crun later_events half_torn)) = queue (plug half_torn)"
proof -
  have h: "list_all (\<lambda>e. \<not> is_whole_setup e) racing_events"
    by (simp add: racing_events_def)
  have c: "excepthook (plug racing) = CrashHandler" "length (in_flight torn) = 1"
    "queue (plug torn) = []"
    by code_simp+
  have e: "fst (setup_plugin env_no_timer (init (Hook 7) args0)) = Some RuntimeError"
    "excepthook (plug half_set_up) = CrashHandler" "in_flight half_torn = []"
    by code_simp+
  have r: "racing = crun racing_events
      \<lparr>plug = snd (setup_plugin env0 (init (Hook 7) args0)), in_flight = []\<rparr>"
    by (simp add: racing_def)
  have r': "half_set_up = crun []
      \<lparr>plug = snd (setup_plugin env_no_timer (init (Hook 7) args0)), in_flight = []\<rparr>"
    by (simp add: half_set_up_def)
  from teardown_restores_hook_and_bounds_stray_heartbeats
         [OF h r torn_def, of later_events]
    teardown_restores_hook_and_bounds_stray_heartbeats
         [OF _ r' half_torn_def, of later_events] h c e
  show ?thesis by simp
qed

subsection \<open>The crash interceptor\<close>

text \<open>
  C1. The claim is that the previous hook is invoked exactly once for every unhandled
  exception, also when reading the application state for the crash report raises.
  The code builds the report, and with it reads the state, before its \<open>try\<close>
  block. On a plugin that was set up while hook 7 was installed, with an application
  whose \<open>to_dict\<close> raises RuntimeError, the handler lets that exception escape,
  changes nothing and never calls the previous hook. (Where the state can be read
  and no exception escapes, the hook is called once: \<open>crash_handler_calls_hook_once\<close>.)
\<close>

theorem crash_handler_state_failure_skips_hook:
  "excepthook installed0 = CrashHandler \<and>
   original_hook installed0 = Some (Hook 7) \<and>
   has_state env_state_raises \<and> to_dict env_state_raises = Inl RuntimeError \<and>
   crash_handler env_state_raises ''boom'' ''Traceback'' installed0 =
     (Some RuntimeError, installed0) \<and>
   hook_calls (step (Unhandled env_state_raises ''boom'' ''Traceback'') installed0) = []"
proof -
  have h: "excepthook installed0 = CrashHandler" "original_hook installed0 = Some (Hook 7)"
    "hook_calls installed0 = []"
    by code_simp+
  have e: "has_state env_state_raises" "to_dict env_state_raises = Inl RuntimeError"
    by (simp_all add: env_state_raises_def env0_def)
  from h e crash_handler_state_raises [OF e, of "''boom''" "''Traceback''" installed0]
  show ?thesis by simp
qed

subsection \<open>When an event is sent\<close>

text \<open>
  C3 says that an event is sent exactly when the host of its URL differs from the
  placeholder domain. With the crash URL
  \<open>https://collector.example.org/myapp.com/crash\<close> the host is
  \<open>collector.example.org\<close>, which is not the placeholder's and does not even
  contain \<open>myapp.com\<close>; the crash handler runs, calls the previous hook, and
  sends nothing.
\<close>

theorem host_differs_but_nothing_sent:
  "crash_url installed_path = ''https://collector.example.org/myapp.com/crash'' \<and>
   url_host (crash_url installed_path) = ''collector.example.org'' \<and>
   url_host ''https://api.myapp.com/crash'' = ''api.myapp.com'' \<and>
   \<not> contains ''myapp.com'' (url_host (crash_url installed_path)) \<and>
   excepthook installed_path = CrashHandler \<and>
   posts installed_path = [] \<and>
   posts (step (Unhandled env0 ''boom'' ''Traceback'') installed_path) = [] \<and>
   hook_calls (step (Unhandled env0 ''boom'' ''Traceback'') installed_path) = [Hook 7]"
  by code_simp

text \<open>
  C3, as the code has it. The guard before each transport call is a substring test
  on the whole URL, and it stands after the log line, which serialises the event
  first. So a crash report is posted exactly when it serialises and the crash URL
  does not contain \<open>myapp.com\<close> anywhere; a dequeued heartbeat is posted exactly
  when it serialises and the telemetry URL does not contain \<open>myapp.com\<close>; an
  event that serialises is logged either way; and both built-in placeholder URLs
  contain \<open>myapp.com\<close>, so with them no transport call is made.
\<close>

theorem transmission_guard:
  "(has_state ev \<and> to_dict ev = Inr d \<longrightarrow>
      posts (snd (crash_handler ev err tb s)) =
        posts s @ (if json_ok (VDict d) \<and> \<not> contains ''myapp.com'' (crash_url s)
                   then [(crash_url s, Crash (session_id s) err tb (platform_platform ev) d)]
                   else []) \<and>
      (json_ok (VDict d) \<longrightarrow>
         Log Error (CrashReport (Crash (session_id s) err tb (platform_platform ev) d))
           \<in> set (trace (snd (crash_handler ev err tb s))))) \<and>
   (\<not> stop_event s \<and> queue s = p # q \<longrightarrow>
      posts (worker_iteration ev s) =
        posts s @ (if payload_json_ok p \<and> \<not> contains ''myapp.com'' (telemetry_url s)
                   then [(telemetry_url s, p)] else []) \<and>
      (payload_json_ok p \<longrightarrow>
         Log Debug (TelemetryPayload p) \<in> set (trace (worker_iteration ev s)))) \<and>
   contains ''myapp.com'' ''https://api.myapp.com/telemetry'' \<and>
   contains ''myapp.com'' ''https://api.myapp.com/crash''"
  by (simp add: crash_handler_posts crash_handler_logged worker_iteration_posts
        worker_iteration_logged)

theorem transmission_guard_witness:
  "has_state env0 \<and> to_dict env0 = Inr state0 \<and> json_ok (VDict state0) \<and>
   posts installed_real = [] \<and>
   posts (snd (crash_handler env0 ''boom'' ''Traceback'' installed_real)) =
     [(''https://telemetry.example.org/crash'', crash1)] \<and>
   posts (snd (crash_handler env0 ''boom'' ''Traceback'' installed0)) = [] \<and>
   Log Error (CrashReport crash1)
     \<in> set (trace (snd (crash_handler env0 ''boom'' ''Traceback'' installed0))) \<and>
   \<not> stop_event installed_real \<and> queue installed_real = [hb1] \<and> payload_json_ok hb1 \<and>
   posts (worker_iteration env0 installed_real) =
     [(''https://telemetry.example.org/beat'', hb1)] \<and>
   queue installed0 = [hb1] \<and>
   posts (worker_iteration env0 installed0) = [] \<and>
   Log Debug (TelemetryPayload hb1) \<in> set (trace (worker_iteration env0 installed0))"
proof -
  have e: "has_state env0" "to_dict env0 = Inr state0" "json_ok (VDict state0)"
    by code_simp+
  have r: "posts installed_real = []" "\<not> stop_event installed_real"
    "queue installed_real = [hb1]" "payload_json_ok hb1"
    "crash_url installed_real = ''https://telemetry.example.org/crash''"
    "telemetry_url installed_real = ''https://telemetry.example.org/beat''"
    "session_id installed_real = ''s1''"
    by code_simp+
  have i: "posts installed0 = []" "\<not> stop_event installed0" "queue installed0 = [hb1]"
    "crash_url installed0 = ''https://api.myapp.com/crash''"
    "telemetry_url installed0 = ''https://api.myapp.com/telemetry''"
    "session_id installed0 = ''s1''"
    by code_simp+
  have p: "platform_platform env0 = ''Linux-6.1''"
    by code_simp
  have c: "\<not> contains ''myapp.com'' ''https://telemetry.example.org/crash''"
    "\<not> contains ''myapp.com'' ''https://telemetry.example.org/beat''"
    by code_simp+
  from transmission_guard [where ev = env0 and d = state0 and s = installed_real
      and err = "''boom''" and tb = "''Traceback''" and p = hb1 and q = "[]"]
    transmission_guard [where ev = env0 and d = state0 and s = installed0
      and err = "''boom''" and tb = "''Traceback''" and p = hb1 and q = "[]"]
    e r i p c
  show ?thesis by (simp add: crash1_def)
qed

subsection \<open>What the crash report carries\<close>

text \<open>
  C9. When the application state can be read as \<open>d\<close> and serialises, the crash
  report that \<open>_crash_handler\<close> logs, and posts unless the crash URL contains
  \<open>myapp.com\<close>, carries \<open>d\<close> itself as \<open>last_state\<close>: no key is filtered
  out, while the heartbeat path stores \<open>safe_state d\<close>.
\<close>

theorem crash_report_keeps_full_state:
  assumes "has_state ev" and "to_dict ev = Inr d" and "json_ok (VDict d)"
  shows "Log Error (CrashReport (Crash (session_id s) err tb (platform_platform ev) d))
           \<in> set (trace (snd (crash_handler ev err tb s))) \<and>
         cr_last_state (Crash (session_id s) err tb (platform_platform ev) d) = d \<and>
         posts (snd (crash_handler ev err tb s)) =
           posts s @ (if contains ''myapp.com'' (crash_url s) then []
                      else [(crash_url s, Crash (session_id s) err tb (platform_platform ev) d)])"
  using assms by (simp add: crash_handler_logged crash_handler_posts)

theorem crash_report_keeps_full_state_witness:
  "has_state env0 \<and> to_dict env0 = Inr state0 \<and> json_ok (VDict state0) \<and>
   Log Error (CrashReport crash1)
     \<in> set (trace (snd (crash_handler env0 ''boom'' ''Traceback'' installed0))) \<and>
   cr_last_state crash1 = state0 \<and>
   sensitive ''userPassword'' \<and> sensitive ''API_TOKEN'' \<and>
   map_of (cr_last_state crash1) ''userPassword'' = Some (VStr ''hunter2'') \<and>
   map_of (cr_last_state crash1) ''API_TOKEN'' = Some (VStr ''abc'') \<and>
   queue installed0 = [hb1] \<and>
   map_of (hb_state hb1) ''userPassword'' = None \<and>
   map_of (hb_state hb1) ''API_TOKEN'' = None"
proof -
  have e: "has_state env0" "to_dict env0 = Inr state0" "json_ok (VDict state0)"
    by code_simp+
  have i: "session_id installed0 = ''s1''" "platform_platform env0 = ''Linux-6.1''"
    "queue installed0 = [hb1]"
    by code_simp+
  have k: "sensitive ''userPassword''" "sensitive ''API_TOKEN''"
    by code_simp+
  from crash_report_keeps_full_state [OF e, of installed0 "''boom''" "''Traceback''"] e i k
  show ?thesis by (simp add: crash1_def state0_def hb1_def)
qed

subsection \<open>Sanitization of the heartbeat\<close>

text \<open>
  C4. In the state field of a heartbeat every key whose lowercase form contains
  \<open>password\<close> or \<open>token\<close> is absent and every other key has the value the host
  gave it: looking a key up in \<open>safe_state d\<close> gives nothing for a sensitive key and
  what \<open>d\<close> gives otherwise. A snapshot that runs to its end with room in the
  queue appends the heartbeat built from \<open>safe_state d\<close>, and whenever a snapshot
  changes the queue at all, it has appended one heartbeat whose state is
  \<open>safe_state\<close> of what \<open>to_dict\<close> returned.
\<close>

theorem heartbeat_state_sanitized:
  "(\<forall>k. map_of (safe_state d) k = (if sensitive k then None else map_of d k)) \<and>
   (\<not> stop_event s \<and> app_truthy ev \<and> has_state ev \<and> to_dict ev = Inr d \<and>
      ram_usage ev = Inr ram \<and> \<not> (0 < maxsize s \<and> maxsize s \<le> int (length (queue s))) \<longrightarrow>
      queue (snd (snapshot_state ev s)) =
        queue s @ [Heartbeat (session_id s) (safe_state d) (system_info ev) ram (time_now ev)]) \<and>
   (queue (snd (snapshot_state ev s)) \<noteq> queue s \<longrightarrow>
      (\<exists>d' ram'. to_dict ev = Inr d' \<and>
         queue (snd (snapshot_state ev s)) =
           queue s @ [Heartbeat (session_id s) (safe_state d') (system_info ev) ram' (time_now ev)]))"
proof -
  have a: "queue (snd (snapshot_state ev s)) =
        queue s @ [Heartbeat (session_id s) (safe_state d) (system_info ev) ram (time_now ev)]"
    if "\<not> stop_event s" "app_truthy ev" "has_state ev" "to_dict ev = Inr d"
      "ram_usage ev = Inr ram" "\<not> (0 < maxsize s \<and> maxsize s \<le> int (length (queue s)))"
    using that by (simp add: snapshot_state_normal enqueue_room)
  have b: "\<exists>d' ram'. to_dict ev = Inr d' \<and>
         queue (snd (snapshot_state ev s)) =
           queue s @ [Heartbeat (session_id s) (safe_state d') (system_info ev) ram' (time_now ev)]"
    if "queue (snd (snapshot_state ev s)) \<noteq> queue s"
    using snapshot_state_enqueued [OF that] by blast
  from a b show ?thesis
    by (simp add: map_of_safe_state)
qed

theorem heartbeat_state_sanitized_witness:
  "sensitive ''userPassword'' \<and> sensitive ''API_TOKEN'' \<and> \<not> sensitive ''theme'' \<and>
   map_of (safe_state state0) ''userPassword'' = None \<and>
   map_of (safe_state state0) ''API_TOKEN'' = None \<and>
   map_of (safe_state state0) ''theme'' = Some (VStr ''dark'') \<and>
   map_of (safe_state state0) ''count'' = Some (VInt 3) \<and>
   \<not> stop_event (init (Hook 0) args0) \<and> app_truthy env0 \<and> has_state env0 \<and>
   to_dict env0 = Inr state0 \<and> ram_usage env0 = Inr (VFloat 42.5) \<and>
   \<not> (0 < maxsize (init (Hook 0) args0) \<and>
      maxsize (init (Hook 0) args0) \<le> int (length (queue (init (Hook 0) args0)))) \<and>
   queue (snd (snapshot_state env0 (init (Hook 0) args0))) = [hb1] \<and>
   queue (snd (snapshot_state env0 (init (Hook 0) args0))) \<noteq> queue (init (Hook 0) args0)"
proof -
  have k: "sensitive ''userPassword''" "sensitive ''API_TOKEN''" "\<not> sensitive ''theme''"
    "\<not> sensitive ''count''"
    by code_simp+
  have s: "\<not> stop_event (init (Hook 0) args0)" "queue (init (Hook 0) args0) = []"
    "maxsize (init (Hook 0) args0) = 100" "session_id (init (Hook 0) args0) = ''s1''"
    by (simp_all add: init_def args0_def)
  have a: "app_truthy env0" "has_state env0" "to_dict env0 = Inr state0"
    "ram_usage env0 = Inr (VFloat 42.5)"
    "system_info env0 = [(''os'', VStr ''Linux'')]" "time_now env0 = 1000"
    by (simp_all add: env0_def state0_def system_info_def ram_usage_def)
  from heartbeat_state_sanitized [where d = state0 and s = "init (Hook 0) args0"
      and ev = env0 and ram = "VFloat 42.5"] k s a
  show ?thesis
    by (simp add: safe_state0 hb1_def)
qed

subsection \<open>The RAM metric\<close>

text \<open>
  C8 says that any failure of the RAM metric gives \<open>unknown\<close> and that the
  heartbeat is still built and enqueued. With psutil installed and
  \<open>virtual_memory\<close> raising OSError, the snapshot is abandoned: the error is logged
  and the queue stays empty.
\<close>

theorem ram_failure_drops_heartbeat:
  "psutil_percent env_ram_fails = Inl OSError \<and> is_Exception OSError \<and>
   \<not> stop_event (init (Hook 0) args0) \<and>
   snapshot_state env_ram_fails (init (Hook 0) args0) =
     (None, emit (Log Error (SnapshotError OSError)) (init (Hook 0) args0)) \<and>
   queue (snd (snapshot_state env_ram_fails (init (Hook 0) args0))) = []"
  by code_simp

text \<open>
  C8, as the code has it. Only ImportError is turned into \<open>unknown\<close>: when
  importing psutil fails with ImportError, the heartbeat is built with
  \<open>ram_usage = unknown\<close> and put to the queue. Any other exception of the RAM
  metric that derives from Exception ends the snapshot: the outer handler logs it and
  no heartbeat is enqueued.
\<close>

theorem ram_usage_fallback:
  assumes "\<not> stop_event s" and "app_truthy ev" and "has_state ev"
    and "to_dict ev = Inr d" and "psutil_percent ev = Inl e"
  shows "(e = ImportError \<longrightarrow>
            snapshot_state ev s =
              (None, enqueue (Heartbeat (session_id s) (safe_state d) (system_info ev)
                                (VStr ''unknown'') (time_now ev)) s)) \<and>
         (e \<noteq> ImportError \<and> is_Exception e \<longrightarrow>
            snapshot_state ev s = (None, emit (Log Error (SnapshotError e)) s) \<and>
            queue (snd (snapshot_state ev s)) = queue s)"
proof -
  have "ram_usage ev = (if e = ImportError then Inr (VStr ''unknown'') else Inl e)"
    using assms(5) by (simp add: ram_usage_def)
  with assms(1-4) show ?thesis
    by (simp add: snapshot_state_normal snapshot_state_ram_raises)
qed

theorem ram_usage_fallback_witness:
  "\<not> stop_event (init (Hook 0) args0) \<and> app_truthy env_no_psutil \<and>
   has_state env_no_psutil \<and> to_dict env_no_psutil = Inr state0 \<and>
   psutil_percent env_no_psutil = Inl ImportError \<and>
   fst (snapshot_state env_no_psutil (init (Hook 0) args0)) = None \<and>
   queue (snd (snapshot_state env_no_psutil (init (Hook 0) args0))) =
     [Heartbeat ''s1'' [(''theme'', VStr ''dark''), (''count'', VInt 3)]
        [(''os'', VStr ''Linux'')] (VStr ''unknown'') 1000] \<and>
   psutil_percent env_ram_fails = Inl OSError \<and> OSError \<noteq> ImportError \<and>
   is_Exception OSError \<and>
   fst (snapshot_state env_ram_fails (init (Hook 0) args0)) = None \<and>
   queue (snd (snapshot_state env_ram_fails (init (Hook 0) args0))) = []"
proof -
  have s: "\<not> stop_event (init (Hook 0) args0)" "queue (init (Hook 0) args0) = []"
    "maxsize (init (Hook 0) args0) = 100" "session_id (init (Hook 0) args0) = ''s1''"
    by (simp_all add: init_def args0_def)
  have a: "app_truthy env_no_psutil" "has_state env_no_psutil"
    "to_dict env_no_psutil = Inr state0" "psutil_percent env_no_psutil = Inl ImportError"
    "system_info env_no_psutil = [(''os'', VStr ''Linux'')]" "time_now env_no_psutil = 1000"
    by (simp_all add: env_no_psutil_def env0_def state0_def system_info_def)
  have b: "app_truthy env_ram_fails" "has_state env_ram_fails"
    "to_dict env_ram_fails = Inr state0" "psutil_percent env_ram_fails = Inl OSError"
    by (simp_all add: env_ram_fails_def env0_def state0_def)
  have x: "is_Exception OSError"
    by (simp add: is_Exception_def)
  from ram_usage_fallback [OF s(1) a(1-4)] ram_usage_fallback [OF s(1) b(1-4)] s a b x
  show ?thesis
    by (simp add: safe_state0 enqueue_def put_nowait_def)
qed

subsection \<open>Normalization of the mode\<close>



end
